theory Spec2Isabelle
  imports Complex_Main
begin

section \<open>The Record3D visualizer example: playback controls over per-frame scene nodes\<close>

text \<open>
  The development embeds \<^verbatim>\<open>main\<close> of \<^verbatim>\<open>examples/07_record3d_visualizer.py\<close>.
  The function builds a playback GUI (a timestep slider, two step buttons, a playing
  checkbox and a framerate slider), registers four callbacks, creates one scene node
  \<^verbatim>\<open>/frames/t{i}\<close> per loaded frame, hides all but the current one, and then runs
  an endless loop that advances the timestep while the checkbox is ticked.

  The closure variables of \<^verbatim>\<open>main\<close> become the fields of one record, every callback
  becomes a function from that record to a result, and every Python exception becomes
  a value of the type \<open>error\<close>.
\<close>

subsection \<open>Errors and Python primitives\<close>

datatype error = IndexError | ZeroDivisionError | AssertionError

text \<open>
  Python's \<^verbatim>\<open>a % b\<close> on integers rounds the quotient towards minus infinity, so the
  result has the sign of the divisor; \<open>mod\<close> on \<open>int\<close> does the same. A zero divisor
  raises.
\<close>

definition py_mod :: "int \<Rightarrow> int \<Rightarrow> error + int" where
  "py_mod a b = (if b = 0 then Inl ZeroDivisionError else Inr (a mod b))"

text \<open>
  Python's \<^verbatim>\<open>a / b\<close> on floats, with the quotient taken in the reals: the rounding of
  the floating-point division is not modelled, the exception for a zero divisor is.
\<close>

definition py_truediv :: "real \<Rightarrow> real \<Rightarrow> error + real" where
  "py_truediv a b = (if b = 0 then Inl ZeroDivisionError else Inr (a / b))"

text \<open>
  The position that \<^verbatim>\<open>xs[i]\<close> denotes in a Python list: a negative index counts from
  the end, and an index outside \<^verbatim>\<open>-len(xs) .. len(xs) - 1\<close> raises.
\<close>

definition list_position :: "'a list \<Rightarrow> int \<Rightarrow> error + nat" where
  "list_position xs i =
     (if 0 \<le> i \<and> i < int (length xs) then Inr (nat i)
      else if i < 0 \<and> 0 \<le> i + int (length xs) then Inr (nat (i + int (length xs)))
      else Inl IndexError)"

subsection \<open>The state of \<^verbatim>\<open>main\<close>\<close>

text \<open>
  A mutation sent to the viewers: the \<^verbatim>\<open>visible\<close> flag of the node \<^verbatim>\<open>/frames/t{i}\<close> is
  set. A transaction is the list of mutations that one \<^verbatim>\<open>server.atomic()\<close> block (or
  one assignment outside such a block) sends, in program order.
\<close>

datatype mutation = SetVisible nat bool

type_synonym transaction = "mutation list"

record state =
  num_frames :: int
  gui_timestep_value :: int
  gui_timestep_disabled :: bool
  gui_next_frame_disabled :: bool
  gui_prev_frame_disabled :: bool
  gui_playing_value :: bool
  gui_framerate_value :: real
  prev_timestep :: int
  frame_nodes :: "bool list"
  published :: "transaction list"

text \<open>
  \<open>frame_nodes s ! i\<close> is the \<^verbatim>\<open>visible\<close> flag of the handle \<^verbatim>\<open>frame_nodes[i]\<close>, the
  root of the subtree of frame \<open>i\<close>; \<open>published s\<close> is the log of the transactions
  sent so far, oldest first.
\<close>

definition visible_count :: "state \<Rightarrow> nat" where
  "visible_count s = length (filter (\<lambda>v. v) (frame_nodes s))"

subsection \<open>The callbacks\<close>

text \<open>
  The callback of the timestep slider (source lines 60 to 67). Inside one atomic block
  it first shows the node of the slider's value and then hides the node of
  \<^verbatim>\<open>prev_timestep\<close>; afterwards it stores the slider's value in \<^verbatim>\<open>prev_timestep\<close>.
\<close>

definition gui_timestep_on_update :: "state \<Rightarrow> error + state" where
  "gui_timestep_on_update s =
     (let current_timestep = gui_timestep_value s in
      case list_position (frame_nodes s) current_timestep of
        Inl e \<Rightarrow> Inl e
      | Inr i \<Rightarrow>
          (let shown = (frame_nodes s)[i := True] in
           case list_position shown (prev_timestep s) of
             Inl e \<Rightarrow> Inl e
           | Inr j \<Rightarrow>
               Inr (s\<lparr>frame_nodes := shown[j := False],
                       published := published s @ [[SetVisible i True, SetVisible j False]],
                       prev_timestep := current_timestep\<rparr>)))"

text \<open>
  Modelled from the spec: the setter of a control's \<^verbatim>\<open>value\<close> is library code that is
  not part of the example. Section 4.4 of the specification says that a set stores the
  value and then runs every registered change callback once, synchronously, whatever
  the origin of the set. The timestep slider has the one callback above.
\<close>

definition set_gui_timestep_value :: "state \<Rightarrow> int \<Rightarrow> error + state" where
  "set_gui_timestep_value s v = gui_timestep_on_update (s\<lparr>gui_timestep_value := v\<rparr>)"

text \<open>The step buttons (source lines 42 to 48).\<close>

definition gui_next_frame_on_click :: "state \<Rightarrow> error + state" where
  "gui_next_frame_on_click s =
     (case py_mod (gui_timestep_value s + 1) (num_frames s) of
        Inl e \<Rightarrow> Inl e
      | Inr v \<Rightarrow> set_gui_timestep_value s v)"

definition gui_prev_frame_on_click :: "state \<Rightarrow> error + state" where
  "gui_prev_frame_on_click s =
     (case py_mod (gui_timestep_value s - 1) (num_frames s) of
        Inl e \<Rightarrow> Inl e
      | Inr v \<Rightarrow> set_gui_timestep_value s v)"

text \<open>The callback of the playing checkbox (source lines 51 to 55).\<close>

definition gui_playing_on_update :: "state \<Rightarrow> state" where
  "gui_playing_on_update s =
     s\<lparr>gui_timestep_disabled := gui_playing_value s,
       gui_next_frame_disabled := gui_playing_value s,
       gui_prev_frame_disabled := gui_playing_value s\<rparr>"

text \<open>
  Modelled from the spec: as for the timestep slider, a set of the checkbox stores the
  value and then runs its one callback.
\<close>

definition set_gui_playing_value :: "state \<Rightarrow> bool \<Rightarrow> state" where
  "set_gui_playing_value s b = gui_playing_on_update (s\<lparr>gui_playing_value := b\<rparr>)"

text \<open>
  One iteration of the loop at source lines 129 to 133: the timestep is advanced when
  the checkbox is ticked, then the thread sleeps. The result carries the state after
  the iteration and the duration passed to \<^verbatim>\<open>time.sleep\<close>.
\<close>

definition playback_loop_iteration :: "state \<Rightarrow> error + (state \<times> real)" where
  "playback_loop_iteration s =
     (case (if gui_playing_value s
            then (case py_mod (gui_timestep_value s + 1) (num_frames s) of
                    Inl e \<Rightarrow> Inl e
                  | Inr v \<Rightarrow> set_gui_timestep_value s v)
            else Inr s) of
        Inl e \<Rightarrow> Inl e
      | Inr s' \<Rightarrow>
          (case py_truediv 1 (gui_framerate_value s') of
             Inl e \<Rightarrow> Inl e
           | Inr d \<Rightarrow> Inr (s', d)))"

subsection \<open>Start-up\<close>

text \<open>
  Modelled from the spec: \<^verbatim>\<open>add_gui_slider\<close> is library code that is not part of the
  example. Section 3 of the specification gives a numeric control a current value with
  declared bounds; the model lets the creation of a slider succeed exactly when the
  initial value lies within the bounds given, and fail with an assertion otherwise.
  The result is the slider's value.
\<close>

definition add_gui_slider :: "'a::linorder \<Rightarrow> 'a \<Rightarrow> 'a \<Rightarrow> error + 'a" where
  "add_gui_slider lo hi initial_value =
     (if lo \<le> initial_value \<and> initial_value \<le> hi then Inr initial_value
      else Inl AssertionError)"

text \<open>
  \<^verbatim>\<open>main\<close> up to the loop (source lines 27 to 128). The loader is outside the
  example; its frame count and its framerate are parameters. Every node is created
  visible, and the loop at lines 124 and 125 then assigns \<^verbatim>\<open>i == gui_timestep.value\<close>
  to each node's flag, one assignment and so one transaction per node.
\<close>

definition main_init :: "int \<Rightarrow> int \<Rightarrow> real \<Rightarrow> error + state" where
  "main_init max_frames loader_num_frames loader_fps =
     (let n = min max_frames loader_num_frames in
      case add_gui_slider 0 (n - 1) 0 of
        Inl e \<Rightarrow> Inl e
      | Inr t \<Rightarrow>
          (case add_gui_slider 1 60 loader_fps of
             Inl e \<Rightarrow> Inl e
           | Inr f \<Rightarrow>
               (let created = map (\<lambda>i. True) [0..<nat n];
                    flags = map (\<lambda>(i, frame_node). int i = t) (enumerate 0 created)
                in Inr \<lparr>num_frames = n,
                        gui_timestep_value = t,
                        gui_timestep_disabled = False,
                        gui_next_frame_disabled = False,
                        gui_prev_frame_disabled = False,
                        gui_playing_value = False,
                        gui_framerate_value = f,
                        prev_timestep = t,
                        frame_nodes = flags,
                        published = map (\<lambda>(i, v). [SetVisible i v]) (enumerate 0 flags)\<rparr>)))"

subsection \<open>Events and runs\<close>

text \<open>
  After start-up the state changes through the viewer's controls and through the
  iterations of the loop.

  Modelled from the spec: the widgets are outside the example. By sections 3 and 4.4
  a disabled control takes no interactive change, and a slider delivers values within
  its declared bounds only; an interaction that breaks either rule leaves the state as
  it is. The framerate slider has no callback.
\<close>

datatype event =
    SliderDrag int
  | NextClick
  | PrevClick
  | PlayingSet bool
  | FramerateDrag real
  | Tick

fun step :: "state \<Rightarrow> event \<Rightarrow> error + state" where
  "step s (SliderDrag v) =
     (if gui_timestep_disabled s \<or> v < 0 \<or> num_frames s - 1 < v then Inr s
      else set_gui_timestep_value s v)"
| "step s NextClick =
     (if gui_next_frame_disabled s then Inr s else gui_next_frame_on_click s)"
| "step s PrevClick =
     (if gui_prev_frame_disabled s then Inr s else gui_prev_frame_on_click s)"
| "step s (PlayingSet b) = Inr (set_gui_playing_value s b)"
| "step s (FramerateDrag f) =
     (if f < 1 \<or> 60 < f then Inr s else Inr (s\<lparr>gui_framerate_value := f\<rparr>))"
| "step s Tick =
     (case playback_loop_iteration s of Inl e \<Rightarrow> Inl e | Inr (s', d) \<Rightarrow> Inr s')"

fun run :: "state \<Rightarrow> event list \<Rightarrow> error + state" where
  "run s [] = Inr s"
| "run s (e # es) = (case step s e of Inl x \<Rightarrow> Inl x | Inr s' \<Rightarrow> run s' es)"

text \<open>
  \<open>program\<close> is \<^verbatim>\<open>main\<close>: start-up followed by a sequence of events. A state is
  reachable when some sequence of events ends in it.
\<close>

definition program :: "int \<Rightarrow> int \<Rightarrow> real \<Rightarrow> event list \<Rightarrow> error + state" where
  "program max_frames loader_num_frames loader_fps es =
     (case main_init max_frames loader_num_frames loader_fps of
        Inl x \<Rightarrow> Inl x
      | Inr s \<Rightarrow> run s es)"

text \<open>A number of clicks on the Next button in a row.\<close>

fun next_clicks :: "nat \<Rightarrow> state \<Rightarrow> error + state" where
  "next_clicks 0 s = Inr s"
| "next_clicks (Suc k) s =
     (case gui_next_frame_on_click s of Inl x \<Rightarrow> Inl x | Inr s' \<Rightarrow> next_clicks k s')"

subsection \<open>The invariant of the playback state\<close>

text \<open>
  Between two events the frame list has one node per frame, the slider's value indexes
  it, \<^verbatim>\<open>prev_timestep\<close> equals the slider's value, and the framerate lies within the
  bounds of its slider.
\<close>

definition playback_invariant :: "state \<Rightarrow> bool" where
  "playback_invariant s =
     (int (length (frame_nodes s)) = num_frames s
      \<and> 0 \<le> gui_timestep_value s \<and> gui_timestep_value s < num_frames s
      \<and> prev_timestep s = gui_timestep_value s
      \<and> 1 \<le> gui_framerate_value s \<and> gui_framerate_value s \<le> 60)"

subsection \<open>One visible frame\<close>

text \<open>
  \<open>only_visible n k\<close> is the list of \<open>n\<close> flags of which the one at position \<open>k\<close>
  alone is set. A state shows its current frame when its nodes carry these flags for
  the slider's value and \<^verbatim>\<open>prev_timestep\<close> equals that value.
\<close>

definition only_visible :: "int \<Rightarrow> int \<Rightarrow> bool list" where
  "only_visible n k = map (\<lambda>i. int i = k) [0..<nat n]"

definition showing :: "state \<Rightarrow> bool" where
  "showing s =
     (frame_nodes s = only_visible (num_frames s) (gui_timestep_value s)
      \<and> prev_timestep s = gui_timestep_value s
      \<and> 0 \<le> gui_timestep_value s \<and> gui_timestep_value s < num_frames s)"

text \<open>The events that come from a drag of the timestep slider.\<close>

fun is_slider_drag :: "event \<Rightarrow> bool" where
  "is_slider_drag (SliderDrag v) = True"
| "is_slider_drag e = False"

section \<open>Auxiliary facts\<close>

text \<open>The definitions that evaluate a run of the program on concrete input.\<close>

lemmas evaluation =
  program_def main_init_def add_gui_slider_def enumerate_eq_zip upt_rec
  gui_next_frame_on_click_def gui_prev_frame_on_click_def py_mod_def py_truediv_def
  set_gui_timestep_value_def gui_timestep_on_update_def list_position_def
  set_gui_playing_value_def gui_playing_on_update_def playback_loop_iteration_def

lemma list_position_in_range:
  "0 \<le> i \<Longrightarrow> i < int (length xs) \<Longrightarrow> list_position xs i = Inr (nat i)"
  by (simp add: list_position_def)

lemma set_gui_timestep_value_in_range:
  assumes "int (length (frame_nodes s)) = num_frames s"
    and "0 \<le> prev_timestep s" and "prev_timestep s < num_frames s"
    and "0 \<le> v" and "v < num_frames s"
  shows "set_gui_timestep_value s v =
           Inr (s\<lparr>gui_timestep_value := v,
                   frame_nodes := (frame_nodes s)[nat v := True, nat (prev_timestep s) := False],
                   published := published s @
                     [[SetVisible (nat v) True, SetVisible (nat (prev_timestep s)) False]],
                   prev_timestep := v\<rparr>)"
  using assms
  by (simp add: set_gui_timestep_value_def gui_timestep_on_update_def list_position_in_range)

lemma next_request_in_range:
  assumes "0 < n"
  shows "0 \<le> (v + 1) mod n \<and> (v + 1) mod n < (n::int)"
  using assms by simp

lemma prev_request_in_range:
  assumes "0 < n"
  shows "(v - 1) mod n = (v - 1 + n) mod n \<and> 0 \<le> (v - 1) mod n \<and> (v - 1) mod n < (n::int)"
  using assms by simp

lemma invariant_set_gui_timestep_value:
  assumes "playback_invariant s" and "0 \<le> v" and "v < num_frames s"
  shows "\<exists>s'. set_gui_timestep_value s v = Inr s' \<and> playback_invariant s'
           \<and> gui_timestep_value s' = v \<and> gui_framerate_value s' = gui_framerate_value s"
  using assms by (simp add: set_gui_timestep_value_in_range playback_invariant_def)

lemma invariant_next:
  assumes "playback_invariant s"
  shows "\<exists>s'. gui_next_frame_on_click s = Inr s' \<and> playback_invariant s'
           \<and> gui_timestep_value s' = (gui_timestep_value s + 1) mod num_frames s
           \<and> gui_framerate_value s' = gui_framerate_value s"
proof -
  from assms have n: "0 < num_frames s" by (simp add: playback_invariant_def)
  from n have r: "0 \<le> (gui_timestep_value s + 1) mod num_frames s"
    "(gui_timestep_value s + 1) mod num_frames s < num_frames s" by simp_all
  from invariant_set_gui_timestep_value [OF assms r] obtain s' where
    "set_gui_timestep_value s ((gui_timestep_value s + 1) mod num_frames s) = Inr s'"
    "playback_invariant s'"
    "gui_timestep_value s' = (gui_timestep_value s + 1) mod num_frames s"
    "gui_framerate_value s' = gui_framerate_value s" by blast
  with n show ?thesis by (simp add: gui_next_frame_on_click_def py_mod_def)
qed

lemma invariant_prev:
  assumes "playback_invariant s"
  shows "\<exists>s'. gui_prev_frame_on_click s = Inr s' \<and> playback_invariant s'"
proof -
  from assms have n: "0 < num_frames s" by (simp add: playback_invariant_def)
  from n have r: "0 \<le> (gui_timestep_value s - 1) mod num_frames s"
    "(gui_timestep_value s - 1) mod num_frames s < num_frames s" by simp_all
  from invariant_set_gui_timestep_value [OF assms r] obtain s' where
    "set_gui_timestep_value s ((gui_timestep_value s - 1) mod num_frames s) = Inr s'"
    "playback_invariant s'" by blast
  with n show ?thesis by (simp add: gui_prev_frame_on_click_def py_mod_def)
qed

lemma playback_loop_iteration_next:
  "playback_loop_iteration s =
     (case (if gui_playing_value s then gui_next_frame_on_click s else Inr s) of
        Inl e \<Rightarrow> Inl e
      | Inr s' \<Rightarrow>
          (case py_truediv 1 (gui_framerate_value s') of
             Inl e \<Rightarrow> Inl e
           | Inr d \<Rightarrow> Inr (s', d)))"
  by (simp add: playback_loop_iteration_def gui_next_frame_on_click_def)

lemma invariant_tick:
  assumes "playback_invariant s"
  shows "\<exists>s'. playback_loop_iteration s = Inr (s', 1 / gui_framerate_value s)
           \<and> playback_invariant s'"
proof (cases "gui_playing_value s")
  case True
  from invariant_next [OF assms] obtain s' where
    s': "gui_next_frame_on_click s = Inr s'" "playback_invariant s'"
      "gui_framerate_value s' = gui_framerate_value s" by blast
  from assms have "gui_framerate_value s \<noteq> 0" by (simp add: playback_invariant_def)
  with True s' show ?thesis
    by (simp add: playback_loop_iteration_next py_truediv_def)
next
  case False
  from assms have "gui_framerate_value s \<noteq> 0" by (simp add: playback_invariant_def)
  with False assms show ?thesis
    by (simp add: playback_loop_iteration_next py_truediv_def)
qed

lemma invariant_step:
  assumes "playback_invariant s"
  shows "\<exists>s'. step s e = Inr s' \<and> playback_invariant s'"
proof (cases e)
  case (SliderDrag v)
  show ?thesis
  proof (cases "gui_timestep_disabled s \<or> v < 0 \<or> num_frames s - 1 < v")
    case True
    with SliderDrag assms show ?thesis by simp
  next
    case False
    then have "0 \<le> v" "v < num_frames s" by simp_all
    from invariant_set_gui_timestep_value [OF assms this] False SliderDrag
    show ?thesis by auto
  qed
next
  case NextClick
  with assms invariant_next [OF assms] show ?thesis
    by (cases "gui_next_frame_disabled s") auto
next
  case PrevClick
  with assms invariant_prev [OF assms] show ?thesis
    by (cases "gui_prev_frame_disabled s") auto
next
  case (PlayingSet b)
  with assms show ?thesis
    by (simp add: playback_invariant_def set_gui_playing_value_def gui_playing_on_update_def)
next
  case (FramerateDrag f)
  with assms show ?thesis by (simp add: playback_invariant_def)
next
  case Tick
  from invariant_tick [OF assms] obtain s' where
    "playback_loop_iteration s = Inr (s', 1 / gui_framerate_value s)" "playback_invariant s'"
    by blast
  with Tick show ?thesis by simp
qed

lemma invariant_run:
  "playback_invariant s \<Longrightarrow> \<exists>s'. run s es = Inr s' \<and> playback_invariant s'"
proof (induction es arbitrary: s)
  case Nil
  then show ?case by simp
next
  case (Cons e es)
  from invariant_step [OF Cons.prems] obtain s1 where
    s1: "step s e = Inr s1" "playback_invariant s1" by blast
  from Cons.IH [OF s1(2)] s1(1) show ?case by simp
qed

lemma invariant_main_init:
  assumes "main_init max_frames loader_num_frames loader_fps = Inr s"
  shows "playback_invariant s"
  using assms
  by (auto simp: main_init_def add_gui_slider_def playback_invariant_def Let_def
        enumerate_eq_zip split: if_splits)

lemma invariant_program:
  assumes "program max_frames loader_num_frames loader_fps es = Inr s"
  shows "playback_invariant s"
proof (cases "main_init max_frames loader_num_frames loader_fps")
  case (Inl x)
  with assms show ?thesis by (simp add: program_def)
next
  case (Inr s0)
  from invariant_run [OF invariant_main_init [OF Inr], of es] assms Inr
  show ?thesis by (auto simp: program_def)
qed

lemma program_never_raises:
  assumes "main_init max_frames loader_num_frames loader_fps = Inr s0"
  shows "\<exists>s. program max_frames loader_num_frames loader_fps es = Inr s"
  using invariant_run [OF invariant_main_init [OF assms], of es] assms
  by (auto simp: program_def)

lemma main_init_succeeds:
  assumes "1 \<le> max_frames" and "1 \<le> loader_num_frames"
    and "1 \<le> loader_fps" and "loader_fps \<le> 60"
  shows "\<exists>s. main_init max_frames loader_num_frames loader_fps = Inr s"
  using assms by (simp add: main_init_def add_gui_slider_def Let_def)

section \<open>Two or more frames\<close>

text \<open>
  With at least two frames, the index that a step button or an iteration of the loop
  requests differs from the current one, and the callback of the timestep slider then
  moves the one visible frame. The facts of this section follow a state that shows its
  current frame through the step buttons and through runs without drags of the
  timestep slider.
\<close>

lemma length_only_visible: "length (only_visible n k) = nat n"
  by (simp add: only_visible_def)

lemma nth_only_visible:
  "i < nat n \<Longrightarrow> only_visible n k ! i = (int i = k)"
  by (simp add: only_visible_def)

lemma only_visible_moves:
  assumes "0 \<le> k" and "k < n" and "0 \<le> v" and "v < n" and "v \<noteq> k"
  shows "(only_visible n k)[nat v := True, nat k := False] = only_visible n v"
proof (rule nth_equalityI)
  show "length ((only_visible n k)[nat v := True, nat k := False]) = length (only_visible n v)"
    by (simp add: length_only_visible)
next
  fix i
  assume "i < length ((only_visible n k)[nat v := True, nat k := False])"
  then have i: "i < nat n" by (simp add: length_only_visible)
  from assms have vk: "nat v \<noteq> nat k" by (simp add: eq_nat_nat_iff)
  from assms have b: "nat v < nat n" "nat k < nat n" by simp_all
  have c: "(i = nat k) = (int i = k)" "(i = nat v) = (int i = v)"
    using assms by auto
  show "(only_visible n k)[nat v := True, nat k := False] ! i = only_visible n v ! i"
  proof (cases "i = nat k")
    case True
    with i vk c assms show ?thesis
      by (simp add: nth_only_visible length_only_visible)
  next
    case False
    note nk = this
    show ?thesis
    proof (cases "i = nat v")
      case True
      with i nk c show ?thesis
        by (simp add: nth_only_visible length_only_visible)
    next
      case False
      with i nk c show ?thesis
        by (simp add: nth_only_visible length_only_visible)
    qed
  qed
qed

lemma filter_index_upt:
  "filter (\<lambda>i. int i = k) [0..<m] = (if 0 \<le> k \<and> k < int m then [nat k] else [])"
proof (induction m)
  case 0
  then show ?case by simp
next
  case (Suc m)
  show ?case
  proof (cases "k = int m")
    case True
    with Suc show ?thesis by simp
  next
    case False
    with Suc show ?thesis by auto
  qed
qed

lemma count_only_visible:
  assumes "0 \<le> k" and "k < n"
  shows "length (filter (\<lambda>v. v) (only_visible n k)) = 1"
proof -
  have "filter (\<lambda>v. v) (only_visible n k)
      = map (\<lambda>i. int i = k) (filter (\<lambda>i. int i = k) [0..<nat n])"
    by (simp add: only_visible_def filter_map comp_def)
  also from assms have "\<dots> = [True]" by (simp add: filter_index_upt)
  finally show ?thesis by simp
qed

lemma showing_visible_count:
  assumes "showing s"
  shows "visible_count s = 1"
  using assms by (simp add: showing_def visible_count_def count_only_visible)

lemma showing_main_init:
  assumes "main_init max_frames loader_num_frames loader_fps = Inr s"
  shows "showing s"
proof -
  have m: "map (\<lambda>(i, frame_node). i = 0) (enumerate 0 (map (\<lambda>i. True) [0..<m]))
         = map (\<lambda>i. i = 0) [0..<m]" for m :: nat
    by (rule nth_equalityI) (simp_all add: nth_enumerate_eq)
  from assms show ?thesis
    by (auto simp: main_init_def add_gui_slider_def showing_def only_visible_def Let_def m
          split: if_splits)
qed

lemma showing_set_gui_timestep_value:
  assumes "showing s" and "0 \<le> v" and "v < num_frames s" and "v \<noteq> gui_timestep_value s"
  shows "\<exists>s'. set_gui_timestep_value s v = Inr s' \<and> showing s'
           \<and> gui_timestep_value s' = v \<and> num_frames s' = num_frames s
           \<and> gui_next_frame_disabled s' = gui_next_frame_disabled s
           \<and> gui_prev_frame_disabled s' = gui_prev_frame_disabled s"
proof -
  let ?k = "gui_timestep_value s" and ?n = "num_frames s"
  from assms(1) have f: "frame_nodes s = only_visible ?n ?k" and p: "prev_timestep s = ?k"
    and k: "0 \<le> ?k" "?k < ?n"
    by (simp_all add: showing_def)
  from k have l: "int (length (frame_nodes s)) = ?n"
    by (simp add: f length_only_visible)
  from k p have pr: "0 \<le> prev_timestep s" "prev_timestep s < ?n" by simp_all
  note r = set_gui_timestep_value_in_range [OF l pr assms(2) assms(3)]
  have m: "(frame_nodes s)[nat v := True, nat (prev_timestep s) := False] = only_visible ?n v"
    unfolding f p by (rule only_visible_moves [OF k assms(2) assms(3) assms(4)])
  show ?thesis unfolding r using m assms(2) assms(3) by (simp add: showing_def)
qed

lemma next_request_differs:
  assumes "0 \<le> v" and "v < n" and "2 \<le> n"
  shows "(v + 1) mod n \<noteq> (v::int)"
proof (cases "v + 1 < n")
  case True
  with assms show ?thesis by simp
next
  case False
  with assms have "v + 1 = n" by simp
  then have "(v + 1) mod n = 0" by simp
  with assms \<open>v + 1 = n\<close> show ?thesis by simp
qed

lemma prev_request_differs:
  assumes "0 \<le> v" and "v < n" and "2 \<le> n"
  shows "(v - 1) mod n \<noteq> (v::int)"
proof (cases "v = 0")
  case True
  with assms have "(v - 1) mod n = n - 1"
    by (simp add: zmod_minus1)
  with True assms show ?thesis by simp
next
  case False
  with assms have "(v - 1) mod n = v - 1" by simp
  then show ?thesis by simp
qed

lemma showing_next:
  assumes "showing s" and "2 \<le> num_frames s"
  shows "\<exists>s'. gui_next_frame_on_click s = Inr s' \<and> showing s'
           \<and> gui_timestep_value s' = (gui_timestep_value s + 1) mod num_frames s
           \<and> num_frames s' = num_frames s
           \<and> gui_next_frame_disabled s' = gui_next_frame_disabled s
           \<and> gui_prev_frame_disabled s' = gui_prev_frame_disabled s"
proof -
  let ?v = "gui_timestep_value s" and ?n = "num_frames s"
  from assms(1) have k: "0 \<le> ?v" "?v < ?n" by (simp_all add: showing_def)
  from assms(2) have n: "0 < ?n" by simp
  then have b: "0 \<le> (?v + 1) mod ?n" "(?v + 1) mod ?n < ?n" by simp_all
  note d = next_request_differs [OF k assms(2)]
  from showing_set_gui_timestep_value [OF assms(1) b d] obtain s' where
    "set_gui_timestep_value s ((?v + 1) mod ?n) = Inr s'" "showing s'"
    "gui_timestep_value s' = (?v + 1) mod ?n" "num_frames s' = ?n"
    "gui_next_frame_disabled s' = gui_next_frame_disabled s"
    "gui_prev_frame_disabled s' = gui_prev_frame_disabled s"
    by blast
  with n show ?thesis by (simp add: gui_next_frame_on_click_def py_mod_def)
qed

lemma showing_prev:
  assumes "showing s" and "2 \<le> num_frames s"
  shows "\<exists>s'. gui_prev_frame_on_click s = Inr s' \<and> showing s'
           \<and> gui_timestep_value s' = (gui_timestep_value s - 1) mod num_frames s
           \<and> num_frames s' = num_frames s
           \<and> gui_next_frame_disabled s' = gui_next_frame_disabled s
           \<and> gui_prev_frame_disabled s' = gui_prev_frame_disabled s"
proof -
  let ?v = "gui_timestep_value s" and ?n = "num_frames s"
  from assms(1) have k: "0 \<le> ?v" "?v < ?n" by (simp_all add: showing_def)
  from assms(2) have n: "0 < ?n" by simp
  then have b: "0 \<le> (?v - 1) mod ?n" "(?v - 1) mod ?n < ?n" by simp_all
  note d = prev_request_differs [OF k assms(2)]
  from showing_set_gui_timestep_value [OF assms(1) b d] obtain s' where
    "set_gui_timestep_value s ((?v - 1) mod ?n) = Inr s'" "showing s'"
    "gui_timestep_value s' = (?v - 1) mod ?n" "num_frames s' = ?n"
    "gui_next_frame_disabled s' = gui_next_frame_disabled s"
    "gui_prev_frame_disabled s' = gui_prev_frame_disabled s"
    by blast
  with n show ?thesis by (simp add: gui_prev_frame_on_click_def py_mod_def)
qed

lemma showing_same_frames:
  assumes "showing s" and "showing s'" and "num_frames s' = num_frames s"
    and "gui_timestep_value s' = gui_timestep_value s"
  shows "frame_nodes s' = frame_nodes s \<and> prev_timestep s' = prev_timestep s"
  using assms by (simp add: showing_def)

lemma next_then_prev_restores:
  assumes "showing s" and "2 \<le> num_frames s"
  shows "\<exists>s1 s2. gui_next_frame_on_click s = Inr s1 \<and> gui_prev_frame_on_click s1 = Inr s2
           \<and> gui_timestep_value s2 = gui_timestep_value s
           \<and> frame_nodes s2 = frame_nodes s \<and> prev_timestep s2 = prev_timestep s"
proof -
  let ?v = "gui_timestep_value s" and ?n = "num_frames s"
  from assms(1) have k: "0 \<le> ?v" "?v < ?n" by (simp_all add: showing_def)
  from showing_next [OF assms] obtain s1 where
    s1: "gui_next_frame_on_click s = Inr s1" "showing s1"
      "gui_timestep_value s1 = (?v + 1) mod ?n" "num_frames s1 = ?n" by blast
  from assms(2) s1(4) have "2 \<le> num_frames s1" by simp
  from showing_prev [OF s1(2) this] obtain s2 where
    s2: "gui_prev_frame_on_click s1 = Inr s2" "showing s2"
      "gui_timestep_value s2 = (gui_timestep_value s1 - 1) mod num_frames s1"
      "num_frames s2 = num_frames s1" by blast
  have "((?v + 1) mod ?n - 1) mod ?n = (?v + 1 - 1) mod ?n"
    by (rule mod_diff_left_eq)
  also from k have "\<dots> = ?v" by simp
  finally have v: "gui_timestep_value s2 = ?v" using s2(3) s1(3) s1(4) by simp
  from s2(4) s1(4) have n: "num_frames s2 = ?n" by simp
  from showing_same_frames [OF assms(1) s2(2) n v] s1(1) s2(1) v show ?thesis by blast
qed

lemma prev_then_next_restores:
  assumes "showing s" and "2 \<le> num_frames s"
  shows "\<exists>s1 s2. gui_prev_frame_on_click s = Inr s1 \<and> gui_next_frame_on_click s1 = Inr s2
           \<and> gui_timestep_value s2 = gui_timestep_value s
           \<and> frame_nodes s2 = frame_nodes s \<and> prev_timestep s2 = prev_timestep s"
proof -
  let ?v = "gui_timestep_value s" and ?n = "num_frames s"
  from assms(1) have k: "0 \<le> ?v" "?v < ?n" by (simp_all add: showing_def)
  from showing_prev [OF assms] obtain s1 where
    s1: "gui_prev_frame_on_click s = Inr s1" "showing s1"
      "gui_timestep_value s1 = (?v - 1) mod ?n" "num_frames s1 = ?n" by blast
  from assms(2) s1(4) have "2 \<le> num_frames s1" by simp
  from showing_next [OF s1(2) this] obtain s2 where
    s2: "gui_next_frame_on_click s1 = Inr s2" "showing s2"
      "gui_timestep_value s2 = (gui_timestep_value s1 + 1) mod num_frames s1"
      "num_frames s2 = num_frames s1" by blast
  have "((?v - 1) mod ?n + 1) mod ?n = (?v - 1 + 1) mod ?n"
    by (rule mod_add_left_eq)
  also from k have "\<dots> = ?v" by simp
  finally have v: "gui_timestep_value s2 = ?v" using s2(3) s1(3) s1(4) by simp
  from s2(4) s1(4) have n: "num_frames s2 = ?n" by simp
  from showing_same_frames [OF assms(1) s2(2) n v] s1(1) s2(1) v show ?thesis by blast
qed

lemma showing_next_clicks:
  assumes "showing s" and "2 \<le> num_frames s"
  shows "\<exists>s'. next_clicks j s = Inr s' \<and> showing s' \<and> num_frames s' = num_frames s
           \<and> gui_timestep_value s' = (gui_timestep_value s + int j) mod num_frames s"
  using assms
proof (induction j arbitrary: s)
  case 0
  then show ?case by (simp add: showing_def)
next
  case (Suc j)
  let ?v = "gui_timestep_value s" and ?n = "num_frames s"
  from showing_next [OF Suc.prems] obtain s1 where
    s1: "gui_next_frame_on_click s = Inr s1" "showing s1"
      "gui_timestep_value s1 = (?v + 1) mod ?n" "num_frames s1 = ?n" by blast
  from Suc.prems(2) s1(4) have "2 \<le> num_frames s1" by simp
  from Suc.IH [OF s1(2) this] obtain s' where
    s': "next_clicks j s1 = Inr s'" "showing s'" "num_frames s' = num_frames s1"
      "gui_timestep_value s' = (gui_timestep_value s1 + int j) mod num_frames s1" by blast
  have "((?v + 1) mod ?n + int j) mod ?n = (?v + 1 + int j) mod ?n"
    by (rule mod_add_left_eq)
  also have "\<dots> = (?v + int (Suc j)) mod ?n" by (simp add: add.commute add.left_commute)
  finally have "gui_timestep_value s' = (?v + int (Suc j)) mod ?n"
    using s'(4) s1(3) s1(4) by simp
  with s1(1) s'(1) s'(2) s'(3) s1(4) show ?case by simp
qed

lemma next_clicks_cycle_restores:
  assumes "showing s" and "2 \<le> num_frames s"
  shows "\<exists>s'. next_clicks (nat (num_frames s)) s = Inr s'
           \<and> gui_timestep_value s' = gui_timestep_value s
           \<and> frame_nodes s' = frame_nodes s \<and> prev_timestep s' = prev_timestep s"
proof -
  let ?v = "gui_timestep_value s" and ?n = "num_frames s"
  from assms(1) have k: "0 \<le> ?v" "?v < ?n" by (simp_all add: showing_def)
  from showing_next_clicks [OF assms, of "nat ?n"] obtain s' where
    s': "next_clicks (nat ?n) s = Inr s'" "showing s'" "num_frames s' = ?n"
      "gui_timestep_value s' = (?v + int (nat ?n)) mod ?n" by blast
  from assms(2) have "int (nat ?n) = ?n" by simp
  with s'(4) k have v: "gui_timestep_value s' = ?v" by simp
  from showing_same_frames [OF assms(1) s'(2) s'(3) v] s'(1) v show ?thesis by blast
qed

lemma showing_step:
  assumes "showing s" and "playback_invariant s" and "2 \<le> num_frames s"
    and "\<not> is_slider_drag e"
  shows "\<exists>s'. step s e = Inr s' \<and> showing s' \<and> playback_invariant s'
           \<and> num_frames s' = num_frames s"
proof -
  from invariant_step [OF assms(2), of e] obtain s' where
    s': "step s e = Inr s'" "playback_invariant s'" by blast
  have "showing s' \<and> num_frames s' = num_frames s"
  proof (cases e)
    case (SliderDrag v)
    with assms(4) show ?thesis by simp
  next
    case NextClick
    from showing_next [OF assms(1) assms(3)] NextClick s'(1) assms(1) show ?thesis
      by (cases "gui_next_frame_disabled s") auto
  next
    case PrevClick
    from showing_prev [OF assms(1) assms(3)] PrevClick s'(1) assms(1) show ?thesis
      by (cases "gui_prev_frame_disabled s") auto
  next
    case (PlayingSet b)
    with s'(1) assms(1) show ?thesis
      by (auto simp: showing_def set_gui_playing_value_def gui_playing_on_update_def)
  next
    case (FramerateDrag f)
    with s'(1) assms(1) show ?thesis
      by (auto simp: showing_def split: if_splits)
  next
    case Tick
    show ?thesis
    proof (cases "gui_playing_value s")
      case True
      from showing_next [OF assms(1) assms(3)] obtain s1 where
        s1: "gui_next_frame_on_click s = Inr s1" "showing s1" "num_frames s1 = num_frames s"
        by blast
      from Tick s'(1) True s1(1) have "s' = s1"
        by (auto simp: playback_loop_iteration_next split: sum.splits)
      with s1 show ?thesis by simp
    next
      case False
      from Tick s'(1) False have "s' = s"
        by (auto simp: playback_loop_iteration_next split: sum.splits)
      with assms(1) show ?thesis by simp
    qed
  qed
  with s' show ?thesis by blast
qed

lemma showing_run:
  assumes "showing s" and "playback_invariant s" and "2 \<le> num_frames s"
    and "list_all (\<lambda>e. \<not> is_slider_drag e) es"
  shows "\<exists>s'. run s es = Inr s' \<and> showing s' \<and> visible_count s' = 1"
  using assms
proof (induction es arbitrary: s)
  case Nil
  then show ?case by (simp add: showing_visible_count)
next
  case (Cons e es)
  from Cons.prems(4) have e: "\<not> is_slider_drag e"
    and es: "list_all (\<lambda>e. \<not> is_slider_drag e) es" by simp_all
  from showing_step [OF Cons.prems(1) Cons.prems(2) Cons.prems(3) e] obtain s1 where
    s1: "step s e = Inr s1" "showing s1" "playback_invariant s1" "num_frames s1 = num_frames s"
    by blast
  from Cons.prems(3) s1(4) have "2 \<le> num_frames s1" by simp
  from Cons.IH [OF s1(2) s1(3) this es] s1(1) show ?case by simp
qed

lemma num_frames_main_init:
  assumes "main_init max_frames loader_num_frames loader_fps = Inr s"
  shows "num_frames s = min max_frames loader_num_frames"
  using assms
  by (auto simp: main_init_def add_gui_slider_def Let_def split: if_splits)

lemma program_shows_one_frame:
  assumes "program max_frames loader_num_frames loader_fps es = Inr s"
    and "2 \<le> min max_frames loader_num_frames"
    and "list_all (\<lambda>e. \<not> is_slider_drag e) es"
  shows "showing s \<and> visible_count s = 1"
proof (cases "main_init max_frames loader_num_frames loader_fps")
  case (Inl x)
  with assms(1) show ?thesis by (simp add: program_def)
next
  case (Inr s0)
  from num_frames_main_init [OF Inr] assms(2) have n: "2 \<le> num_frames s0" by simp
  from showing_run [OF showing_main_init [OF Inr] invariant_main_init [OF Inr] n assms(3)]
    assms(1) Inr
  show ?thesis by (auto simp: program_def)
qed

section \<open>Properties\<close>

text \<open>
  C1. The property: in every reachable state exactly one frame is visible, for every
  number of frames from 1 on. With a single frame the code breaks it: after start-up
  one frame is visible, and one click on Next, which requests index 0 again, leaves
  none visible. With two or more frames the property holds along every run without
  drags of the timestep slider (\<open>program_shows_one_frame\<close>).
\<close>

theorem single_frame_next_click_hides_the_frame:
  "map_sum id visible_count (program 50 1 30 []) = Inr 1
   \<and> map_sum id visible_count (program 50 1 30 [NextClick]) = Inr 0
   \<and> map_sum id frame_nodes (program 50 1 30 [NextClick]) = Inr [False]"
  by (simp add: evaluation visible_count_def)

text \<open>
  C2. With ten frames, setting the timestep slider to 3 from any previous index sends
  exactly one transaction, which holds exactly two mutations: frame 3 is shown and the
  frame of the previous index is hidden. Afterwards the slider's value and
  \<^verbatim>\<open>prev_timestep\<close> are both 3.
\<close>

theorem slider_set_to_3_of_10:
  assumes "num_frames s = 10" and "int (length (frame_nodes s)) = 10"
    and "0 \<le> prev_timestep s" and "prev_timestep s < 10"
  shows "\<exists>s'. set_gui_timestep_value s 3 = Inr s'
           \<and> published s' = published s @
               [[SetVisible 3 True, SetVisible (nat (prev_timestep s)) False]]
           \<and> gui_timestep_value s' = 3 \<and> prev_timestep s' = 3"
  using assms by (simp add: set_gui_timestep_value_in_range)

theorem slider_set_to_3_of_10_witness:
  "num_frames (projr (program 50 10 30 [PrevClick])) = 10
   \<and> prev_timestep (projr (program 50 10 30 [PrevClick])) = 9
   \<and> (\<exists>s'. set_gui_timestep_value (projr (program 50 10 30 [PrevClick])) 3 = Inr s'
         \<and> published s' = published (projr (program 50 10 30 [PrevClick])) @
               [[SetVisible 3 True, SetVisible 9 False]]
         \<and> gui_timestep_value s' = 3 \<and> prev_timestep s' = 3)"
proof -
  let ?s = "projr (program 50 10 30 [PrevClick])"
  have h: "num_frames ?s = 10" "int (length (frame_nodes ?s)) = 10"
    "0 \<le> prev_timestep ?s" "prev_timestep ?s < 10"
    by (simp_all add: evaluation)
  have p: "prev_timestep ?s = 9" by (simp add: evaluation)
  from slider_set_to_3_of_10 [OF h] h(1) p show ?thesis by simp
qed

text \<open>
  C3. The property: Next followed by Prev, or Prev followed by Next, restores the
  index and the visibility of every frame, for every number of frames from 1 on. With
  a single frame the index is restored and the visibility is not: the frame that was
  visible is hidden after either pair of clicks. With two or more frames both are
  restored (\<open>next_then_prev_restores\<close>, \<open>prev_then_next_restores\<close>).
\<close>

theorem single_frame_next_then_prev_loses_visibility:
  "map_sum id (\<lambda>s. (gui_timestep_value s, frame_nodes s)) (program 50 1 30 [])
     = Inr (0, [True])
   \<and> map_sum id (\<lambda>s. (gui_timestep_value s, frame_nodes s))
       (program 50 1 30 [NextClick, PrevClick]) = Inr (0, [False])
   \<and> map_sum id (\<lambda>s. (gui_timestep_value s, frame_nodes s))
       (program 50 1 30 [PrevClick, NextClick]) = Inr (0, [False])"
  by (simp add: evaluation)

text \<open>
  C4. The property: \<open>num_frames\<close> clicks on Next restore the index and the visibility
  of every frame, for every number of frames from 1 on. With a single frame, one click
  on Next restores the index 0 and leaves the frame hidden. With two or more frames
  both are restored (\<open>next_clicks_cycle_restores\<close>).
\<close>

theorem single_frame_cycle_loses_visibility:
  "map_sum id (\<lambda>s. (num_frames s, gui_timestep_value s, frame_nodes s)) (main_init 1 282 30)
     = Inr (1, 0, [True])
   \<and> map_sum id (\<lambda>s. (gui_timestep_value s, frame_nodes s))
       (next_clicks (nat (num_frames (projr (main_init 1 282 30)))) (projr (main_init 1 282 30)))
     = Inr (0, [False])"
  by (simp add: evaluation)

text \<open>
  C5. From a current index \<open>v\<close> within \<open>[0, num_frames)\<close>, a click on Next sets the
  slider to \<open>(v + 1) mod num_frames\<close> and a click on Prev sets it to
  \<open>(v - 1 + num_frames) mod num_frames\<close>. The index that Prev requests lies within
  \<open>[0, num_frames)\<close>, also when \<open>v = 0\<close>.
\<close>

theorem step_buttons_request:
  assumes "int (length (frame_nodes s)) = num_frames s"
    and "0 \<le> prev_timestep s" and "prev_timestep s < num_frames s"
    and "0 \<le> gui_timestep_value s" and "gui_timestep_value s < num_frames s"
  shows "gui_next_frame_on_click s =
           set_gui_timestep_value s ((gui_timestep_value s + 1) mod num_frames s)
       \<and> gui_prev_frame_on_click s =
           set_gui_timestep_value s ((gui_timestep_value s - 1 + num_frames s) mod num_frames s)
       \<and> (\<exists>s'. gui_next_frame_on_click s = Inr s'
             \<and> gui_timestep_value s' = (gui_timestep_value s + 1) mod num_frames s)
       \<and> (\<exists>s'. gui_prev_frame_on_click s = Inr s'
             \<and> gui_timestep_value s' = (gui_timestep_value s - 1 + num_frames s) mod num_frames s
             \<and> 0 \<le> gui_timestep_value s' \<and> gui_timestep_value s' < num_frames s)"
proof -
  from assms have n: "0 < num_frames s" by simp
  note nx = next_request_in_range [OF n, of "gui_timestep_value s"]
  note pv = prev_request_in_range [OF n, of "gui_timestep_value s"]
  have 1: "gui_next_frame_on_click s =
           set_gui_timestep_value s ((gui_timestep_value s + 1) mod num_frames s)"
    using n by (simp add: gui_next_frame_on_click_def py_mod_def)
  have 2: "gui_prev_frame_on_click s =
           set_gui_timestep_value s ((gui_timestep_value s - 1 + num_frames s) mod num_frames s)"
    using n by (simp add: gui_prev_frame_on_click_def py_mod_def)
  have 3: "\<exists>s'. gui_next_frame_on_click s = Inr s'
             \<and> gui_timestep_value s' = (gui_timestep_value s + 1) mod num_frames s"
    unfolding 1 using assms nx by (simp add: set_gui_timestep_value_in_range)
  have 4: "\<exists>s'. gui_prev_frame_on_click s = Inr s'
             \<and> gui_timestep_value s' = (gui_timestep_value s - 1 + num_frames s) mod num_frames s
             \<and> 0 \<le> gui_timestep_value s' \<and> gui_timestep_value s' < num_frames s"
    unfolding 2 using assms pv by (simp add: set_gui_timestep_value_in_range)
  from 1 2 3 4 show ?thesis by blast
qed

theorem step_buttons_request_witness:
  "gui_timestep_value (projr (program 50 4 30 [])) = 0
   \<and> num_frames (projr (program 50 4 30 [])) = 4
   \<and> (\<exists>s'. gui_next_frame_on_click (projr (program 50 4 30 [])) = Inr s'
         \<and> gui_timestep_value s' = 1)
   \<and> (\<exists>s'. gui_prev_frame_on_click (projr (program 50 4 30 [])) = Inr s'
         \<and> gui_timestep_value s' = 3)"
proof -
  let ?s = "projr (program 50 4 30 [])"
  have h: "int (length (frame_nodes ?s)) = num_frames ?s"
    "0 \<le> prev_timestep ?s" "prev_timestep ?s < num_frames ?s"
    "0 \<le> gui_timestep_value ?s" "gui_timestep_value ?s < num_frames ?s"
    by (simp_all add: evaluation)
  have v: "gui_timestep_value ?s = 0" and n: "num_frames ?s = 4"
    by (simp_all add: evaluation)
  have a: "(gui_timestep_value ?s + 1) mod num_frames ?s = 1"
    and b: "(gui_timestep_value ?s - 1 + num_frames ?s) mod num_frames ?s = 3"
    by (simp_all add: v n)
  from step_buttons_request [OF h] v n show ?thesis unfolding a b by blast
qed

text \<open>
  C6. Whenever the playing flag is set, the disabled flags of the timestep slider, of the
  Next button and of the Prev button all take the new value of the flag: ticking the
  checkbox disables the three controls, clearing it enables them again at once.
\<close>

theorem playing_sets_disabled_flags:
  "gui_playing_value (set_gui_playing_value s b) = b
   \<and> gui_timestep_disabled (set_gui_playing_value s b) = b
   \<and> gui_next_frame_disabled (set_gui_playing_value s b) = b
   \<and> gui_prev_frame_disabled (set_gui_playing_value s b) = b"
  by (simp add: set_gui_playing_value_def gui_playing_on_update_def)

text \<open>
  C7. One iteration of the playback loop, when playing, requests the timestep
  \<open>(v + 1) mod num_frames\<close> and leaves the state a click on Next leaves; when not
  playing it leaves the state alone. The duration it sleeps is 1 over the framerate
  that the state holds in that iteration, so a framerate changed between two
  iterations sets the period of the later one only.
\<close>

theorem loop_iteration_requests_next:
  assumes "int (length (frame_nodes s)) = num_frames s"
    and "0 \<le> prev_timestep s" and "prev_timestep s < num_frames s"
    and "0 \<le> gui_timestep_value s" and "gui_timestep_value s < num_frames s"
    and "gui_framerate_value s \<noteq> 0"
  shows "\<exists>s'. playback_loop_iteration s = Inr (s', 1 / gui_framerate_value s')
           \<and> gui_framerate_value s' = gui_framerate_value s
           \<and> (if gui_playing_value s
               then gui_next_frame_on_click s = Inr s'
                 \<and> gui_timestep_value s' = (gui_timestep_value s + 1) mod num_frames s
               else s' = s)"
proof (cases "gui_playing_value s")
  case True
  from assms have n: "0 < num_frames s" by simp
  note r = next_request_in_range [OF n, of "gui_timestep_value s"]
  have "gui_next_frame_on_click s =
      set_gui_timestep_value s ((gui_timestep_value s + 1) mod num_frames s)"
    using n by (simp add: gui_next_frame_on_click_def py_mod_def)
  with assms r True show ?thesis
    by (simp add: playback_loop_iteration_next set_gui_timestep_value_in_range py_truediv_def)
next
  case False
  with assms show ?thesis
    by (simp add: playback_loop_iteration_next py_truediv_def)
qed

theorem loop_iteration_requests_next_witness:
  "gui_playing_value (projr (program 50 4 30 [PlayingSet True, FramerateDrag 24]))
   \<and> gui_framerate_value (projr (program 50 4 30 [PlayingSet True, FramerateDrag 24])) = 24
   \<and> (\<exists>s'. playback_loop_iteration (projr (program 50 4 30 [PlayingSet True, FramerateDrag 24]))
            = Inr (s', 1 / 24)
         \<and> gui_next_frame_on_click (projr (program 50 4 30 [PlayingSet True, FramerateDrag 24]))
            = Inr s'
         \<and> gui_timestep_value s' = 1)"
proof -
  let ?s = "projr (program 50 4 30 [PlayingSet True, FramerateDrag 24])"
  have h: "int (length (frame_nodes ?s)) = num_frames ?s"
    "0 \<le> prev_timestep ?s" "prev_timestep ?s < num_frames ?s"
    "0 \<le> gui_timestep_value ?s" "gui_timestep_value ?s < num_frames ?s"
    "gui_framerate_value ?s \<noteq> 0"
    by (simp_all add: evaluation)
  have p: "gui_playing_value ?s" and f: "gui_framerate_value ?s = 24"
    by (simp_all add: evaluation)
  have a: "(gui_timestep_value ?s + 1) mod num_frames ?s = 1"
    by (simp add: evaluation)
  from loop_iteration_requests_next [OF h] obtain s' where
    s': "playback_loop_iteration ?s = Inr (s', 1 / gui_framerate_value s')"
      "gui_framerate_value s' = gui_framerate_value ?s"
      "if gui_playing_value ?s
         then gui_next_frame_on_click ?s = Inr s'
           \<and> gui_timestep_value s' = (gui_timestep_value ?s + 1) mod num_frames ?s
         else s' = ?s"
    by blast
  from s'(3) p have n: "gui_next_frame_on_click ?s = Inr s'"
    "gui_timestep_value s' = (gui_timestep_value ?s + 1) mod num_frames ?s" by simp_all
  from s'(1) s'(2) f have "playback_loop_iteration ?s = Inr (s', 1 / 24)" by simp
  with n a p f show ?thesis by auto
qed

text \<open>
  C8. In every state that the program reaches, the value of the timestep slider lies
  within \<open>[0, num_frames)\<close>: it starts at 0, the step buttons and the loop write
  it modulo \<open>num_frames\<close>, and a drag of the slider stays within its bounds. Start-up
  succeeds only with at least one frame.
\<close>

theorem timestep_within_frames:
  assumes "program max_frames loader_num_frames loader_fps es = Inr s"
  shows "0 \<le> gui_timestep_value s \<and> gui_timestep_value s < num_frames s"
  using invariant_program [OF assms] by (simp add: playback_invariant_def)

theorem timestep_within_frames_witness:
  "program 50 3 30 [PrevClick, PlayingSet True, Tick, Tick, SliderDrag 7]
     = Inr (projr (program 50 3 30 [PrevClick, PlayingSet True, Tick, Tick, SliderDrag 7]))
   \<and> gui_timestep_value
        (projr (program 50 3 30 [PrevClick, PlayingSet True, Tick, Tick, SliderDrag 7])) = 1
   \<and> num_frames
        (projr (program 50 3 30 [PrevClick, PlayingSet True, Tick, Tick, SliderDrag 7])) = 3
   \<and> 0 \<le> gui_timestep_value
        (projr (program 50 3 30 [PrevClick, PlayingSet True, Tick, Tick, SliderDrag 7]))
   \<and> gui_timestep_value
        (projr (program 50 3 30 [PrevClick, PlayingSet True, Tick, Tick, SliderDrag 7]))
       < num_frames
        (projr (program 50 3 30 [PrevClick, PlayingSet True, Tick, Tick, SliderDrag 7]))"
proof -
  let ?p = "program 50 3 30 [PrevClick, PlayingSet True, Tick, Tick, SliderDrag 7]"
  have r: "?p = Inr (projr ?p)" by (simp add: evaluation)
  have v: "gui_timestep_value (projr ?p) = 1" by (simp add: evaluation)
  have n: "num_frames (projr ?p) = 3" by (simp add: evaluation)
  from r v n timestep_within_frames [OF r] show ?thesis by blast
qed

text \<open>
  C9. In every state that the program reaches the framerate is at least 1, the minimum
  of its slider, so the division \<^verbatim>\<open>1.0 / gui_framerate.value\<close> of the loop does not
  raise and the iteration returns.
\<close>

theorem framerate_division_defined:
  assumes "program max_frames loader_num_frames loader_fps es = Inr s"
  shows "1 \<le> gui_framerate_value s
       \<and> py_truediv 1 (gui_framerate_value s) = Inr (1 / gui_framerate_value s)
       \<and> (\<exists>s'. playback_loop_iteration s = Inr (s', 1 / gui_framerate_value s))"
proof -
  note i = invariant_program [OF assms]
  then have f: "1 \<le> gui_framerate_value s" by (simp add: playback_invariant_def)
  then have "py_truediv 1 (gui_framerate_value s) = Inr (1 / gui_framerate_value s)"
    by (simp add: py_truediv_def)
  with f invariant_tick [OF i] show ?thesis by blast
qed

theorem framerate_division_defined_witness:
  "program 50 3 1 [FramerateDrag 0, FramerateDrag (1 / 2), PlayingSet True, Tick]
     = Inr (projr (program 50 3 1 [FramerateDrag 0, FramerateDrag (1 / 2), PlayingSet True, Tick]))
   \<and> gui_framerate_value
        (projr (program 50 3 1 [FramerateDrag 0, FramerateDrag (1 / 2), PlayingSet True, Tick])) = 1
   \<and> py_truediv 1 (gui_framerate_value
        (projr (program 50 3 1 [FramerateDrag 0, FramerateDrag (1 / 2), PlayingSet True, Tick])))
      = Inr (1 / gui_framerate_value
        (projr (program 50 3 1 [FramerateDrag 0, FramerateDrag (1 / 2), PlayingSet True, Tick])))"
proof -
  let ?p = "program 50 3 1 [FramerateDrag 0, FramerateDrag (1 / 2), PlayingSet True, Tick]"
  have r: "?p = Inr (projr ?p)" by (simp add: evaluation)
  have v: "gui_framerate_value (projr ?p) = 1" by (simp add: evaluation)
  from r v framerate_division_defined [OF r] show ?thesis by blast
qed

text \<open>
  C10. The callback of the timestep slider queues the mutation that shows the new
  frame before the mutation that hides the previous frame, both in one transaction.
  The new frame therefore ends visible exactly when it differs from the previous one:
  when the two indices coincide, the frame is left hidden.
\<close>

theorem shown_before_hidden:
  assumes "int (length (frame_nodes s)) = num_frames s"
    and "0 \<le> prev_timestep s" and "prev_timestep s < num_frames s"
    and "0 \<le> v" and "v < num_frames s"
  shows "\<exists>s'. set_gui_timestep_value s v = Inr s'
           \<and> published s' = published s @
               [[SetVisible (nat v) True, SetVisible (nat (prev_timestep s)) False]]
           \<and> frame_nodes s' ! nat v = (prev_timestep s \<noteq> v)
           \<and> (if prev_timestep s = v then frame_nodes s' = (frame_nodes s)[nat v := False]
               else True)"
proof -
  let ?xs = "frame_nodes s"
  note r = set_gui_timestep_value_in_range [OF assms]
  from assms have l: "nat v < length ?xs" by linarith
  from assms have e: "(nat (prev_timestep s) = nat v) = (prev_timestep s = v)"
    by (simp add: eq_nat_nat_iff)
  have n: "?xs[nat v := True, nat (prev_timestep s) := False] ! nat v = (prev_timestep s \<noteq> v)"
  proof (cases "prev_timestep s = v")
    case True
    with l show ?thesis by simp
  next
    case False
    with e have "nat (prev_timestep s) \<noteq> nat v" by simp
    with l False show ?thesis by simp
  qed
  have u: "(if prev_timestep s = v
            then ?xs[nat v := True, nat (prev_timestep s) := False] = ?xs[nat v := False]
            else True)"
    by simp
  let ?s' = "s\<lparr>gui_timestep_value := v,
                 frame_nodes := ?xs[nat v := True, nat (prev_timestep s) := False],
                 published := published s @
                   [[SetVisible (nat v) True, SetVisible (nat (prev_timestep s)) False]],
                 prev_timestep := v\<rparr>"
  have f: "frame_nodes ?s' = ?xs[nat v := True, nat (prev_timestep s) := False]" by simp
  have p: "published ?s' = published s @
      [[SetVisible (nat v) True, SetVisible (nat (prev_timestep s)) False]]" by simp
  show ?thesis
  proof (intro exI conjI)
    show "set_gui_timestep_value s v = Inr ?s'" by (rule r)
    show "published ?s' = published s @
      [[SetVisible (nat v) True, SetVisible (nat (prev_timestep s)) False]]" by (rule p)
    show "frame_nodes ?s' ! nat v = (prev_timestep s \<noteq> v)" unfolding f by (rule n)
    show "if prev_timestep s = v then frame_nodes ?s' = ?xs[nat v := False] else True"
      unfolding f by (rule u)
  qed
qed

theorem shown_before_hidden_witness:
  "prev_timestep (projr (program 50 1 30 [])) = 0
   \<and> frame_nodes (projr (program 50 1 30 [])) = [True]
   \<and> (\<exists>s'. set_gui_timestep_value (projr (program 50 1 30 [])) 0 = Inr s'
         \<and> published s' = published (projr (program 50 1 30 [])) @
               [[SetVisible 0 True, SetVisible 0 False]]
         \<and> frame_nodes s' = [False])"
proof -
  let ?s = "projr (program 50 1 30 [])"
  have h: "int (length (frame_nodes ?s)) = num_frames ?s"
    "0 \<le> prev_timestep ?s" "prev_timestep ?s < num_frames ?s"
    "0 \<le> (0::int)" "0 < num_frames ?s"
    by (simp_all add: evaluation)
  have v: "prev_timestep ?s = 0" and f: "frame_nodes ?s = [True]"
    by (simp_all add: evaluation)
  from shown_before_hidden [OF h] obtain s' where
    s': "set_gui_timestep_value ?s 0 = Inr s'"
      "published s' = published ?s @
         [[SetVisible (nat 0) True, SetVisible (nat (prev_timestep ?s)) False]]"
      "if prev_timestep ?s = 0 then frame_nodes s' = (frame_nodes ?s)[nat 0 := False] else True"
    by blast
  from s'(3) v f have "frame_nodes s' = [False]" by simp
  moreover from s'(2) v have "published s' = published ?s @
      [[SetVisible 0 True, SetVisible 0 False]]" by simp
  ultimately show ?thesis using s'(1) v f by blast
qed

end
